theory Spec2Isabelle
  imports Main "HOL-Library.Sublist" "HOL-Library.Word"
begin

unbundle bit_operations_syntax

section \<open>Python values\<close>

text \<open>
  A Python \<open>str\<close> is a sequence of Unicode code points, so it is a list of naturals
  (one element per code point: \<open>len\<close>, slicing and \<open>startswith\<close> count code points);
  \<open>bytes\<close> is a list of 8-bit words.  A literal of the source is written
  \<open>lit ''...''\<close>.
\<close>

type_synonym str = "nat list"
type_synonym byte = "8 word"
type_synonym bytes = "byte list"

definition lit :: "string \<Rightarrow> str" where
  "lit s = map of_char s"

text \<open>\<open>s.startswith(p)\<close>, \<open>s.endswith(p)\<close>.\<close>

definition startswith :: "str \<Rightarrow> str \<Rightarrow> bool" where
  "startswith s p = prefix p s"

definition endswith :: "str \<Rightarrow> str \<Rightarrow> bool" where
  "endswith s p = suffix p s"

text \<open>
  \<open>s.replace(old, new, 1)\<close>: the leftmost occurrence of \<open>old\<close> is replaced, and a
  string without an occurrence is returned as it is.
\<close>

fun replace1 :: "str \<Rightarrow> str \<Rightarrow> str \<Rightarrow> str" where
  "replace1 old new [] = (if old = [] then new else [])"
| "replace1 old new (c # cs) =
     (if prefix old (c # cs) then new @ drop (length old) (c # cs)
      else c # replace1 old new cs)"

text \<open>
  \<open>s.split(sep, 1)\<close> for a one-character separator: two parts when the separator
  occurs (cut at its first occurrence), the string itself otherwise.
\<close>

definition split1 :: "nat \<Rightarrow> str \<Rightarrow> str list" where
  "split1 sep s =
     (if sep \<in> set s then [takeWhile (\<lambda>c. c \<noteq> sep) s, tl (dropWhile (\<lambda>c. c \<noteq> sep) s)]
      else [s])"

text \<open>Truthiness of an optional string: \<open>None\<close> and \<open>""\<close> are false.\<close>

definition truthy :: "str option \<Rightarrow> bool" where
  "truthy v = (case v of None \<Rightarrow> False | Some s \<Rightarrow> s \<noteq> [])"

text \<open>\<open>v or ""\<close>, which is also \<open>d.get(k, "")\<close> of an absent key.\<close>

definition or_empty :: "str option \<Rightarrow> str" where
  "or_empty v = (case v of None \<Rightarrow> [] | Some s \<Rightarrow> s)"

text \<open>The exceptions that the handler can meet; \<open>ClientError\<close> is any failure of a
  service call other than a missing key, with the service's message.\<close>

datatype exn =
    ValueError
  | BinasciiError
  | UnicodeDecodeError
  | NoSuchKey
  | ClientError str


section \<open>Library functions: base64, UTF-8, JSON\<close>

subsection \<open>base64\<close>

text \<open>
  The alphabet of RFC 4648 as the two tables of \<open>binascii\<close>: \<open>b64_char\<close> maps a
  six-bit value to its character, \<open>b64_value\<close> a character to its six-bit value
  (\<open>None\<close> for a character outside the alphabet).  61 is the pad character \<open>=\<close>.
\<close>

definition b64_char :: "byte \<Rightarrow> nat" where
  "b64_char v = (let i = unat v in
     if i < 26 then 65 + i else if i < 52 then 71 + i
     else if i < 62 then i - 4 else if i = 62 then 43 else 47)"

definition b64_value :: "nat \<Rightarrow> byte option" where
  "b64_value c =
     (if 65 \<le> c \<and> c \<le> 90 then Some (of_nat (c - 65))
      else if 97 \<le> c \<and> c \<le> 122 then Some (of_nat (c - 71))
      else if 48 \<le> c \<and> c \<le> 57 then Some (of_nat (c + 4))
      else if c = 43 then Some 62
      else if c = 47 then Some 63
      else None)"

text \<open>\<open>base64.b64encode(b).decode()\<close>: three bytes give four characters, and the
  last group is padded.\<close>

fun b64encode :: "bytes \<Rightarrow> str" where
  "b64encode [] = []"
| "b64encode [a] =
     [b64_char (drop_bit 2 a), b64_char (push_bit 4 (a AND 3)), 61, 61]"
| "b64encode [a, b] =
     [b64_char (drop_bit 2 a), b64_char (push_bit 4 (a AND 3) OR drop_bit 4 b),
      b64_char (push_bit 2 (b AND 15)), 61]"
| "b64encode (a # b # c # rest) =
     [b64_char (drop_bit 2 a), b64_char (push_bit 4 (a AND 3) OR drop_bit 4 b),
      b64_char (push_bit 2 (b AND 15) OR drop_bit 6 c), b64_char (c AND 63)]
     @ b64encode rest"

text \<open>
  \<open>binascii.a2b_base64\<close> in its default, non-strict mode, as CPython's loop runs:
  characters outside the alphabet are skipped; a pad character ends the input once
  the current group holds two characters or more and the pads complete it, and is
  skipped otherwise; input that ends inside a group is an error (\<open>None\<close>).
\<close>

fun a2b_base64 :: "nat \<Rightarrow> byte \<Rightarrow> nat \<Rightarrow> str \<Rightarrow> bytes option" where
  "a2b_base64 quad_pos leftchar pads [] = (if quad_pos \<noteq> 0 then None else Some [])"
| "a2b_base64 quad_pos leftchar pads (this_ch # rest) =
     (if this_ch = 61 then
        (if quad_pos \<ge> 2 \<and> quad_pos + (pads + 1) \<ge> 4 then Some []
         else a2b_base64 quad_pos leftchar (if quad_pos \<ge> 2 then pads + 1 else pads) rest)
      else case b64_value this_ch of
        None \<Rightarrow> a2b_base64 quad_pos leftchar pads rest
      | Some v \<Rightarrow>
         (if quad_pos = 0 then a2b_base64 1 v 0 rest
          else if quad_pos = 1 then
            map_option ((#) (push_bit 2 leftchar OR drop_bit 4 v))
              (a2b_base64 2 (v AND 15) 0 rest)
          else if quad_pos = 2 then
            map_option ((#) (push_bit 4 leftchar OR drop_bit 2 v))
              (a2b_base64 3 (v AND 3) 0 rest)
          else
            map_option ((#) (push_bit 6 leftchar OR v)) (a2b_base64 0 0 0 rest)))"

text \<open>\<open>base64.b64decode(s)\<close> of a \<open>str\<close>: the string is encoded as ASCII first
  (\<open>ValueError\<close> for a code point above 127), then decoded.\<close>

definition b64decode :: "str \<Rightarrow> exn + bytes" where
  "b64decode s =
     (if \<exists>c \<in> set s. c \<ge> 128 then Inl ValueError
      else case a2b_base64 0 0 0 s of
        None \<Rightarrow> Inl BinasciiError
      | Some b \<Rightarrow> Inr b)"

subsection \<open>UTF-8\<close>

text \<open>A continuation byte, and its six payload bits.\<close>

definition is_cont :: "byte \<Rightarrow> bool" where
  "is_cont b = (128 \<le> unat b \<and> unat b \<le> 191)"

definition cont_bits :: "byte \<Rightarrow> nat" where
  "cont_bits b = unat b - 128"

text \<open>
  \<open>b.decode()\<close>, the strict UTF-8 decoder: the well-formed byte sequences of the
  Unicode standard (no overlong forms, no surrogates, nothing above U+10FFFF: the
  second byte of a sequence has a narrower range after the lead bytes E0, ED, F0
  and F4); \<open>None\<close> is \<open>UnicodeDecodeError\<close>.
\<close>

fun utf8_decode :: "bytes \<Rightarrow> str option" where
  "utf8_decode [] = Some []"
| "utf8_decode (b0 # bs) =
     (let x = unat b0 in
      if x < 128 then map_option ((#) x) (utf8_decode bs)
      else if 194 \<le> x \<and> x \<le> 223 then
        (case bs of
           b1 # bs1 \<Rightarrow>
             if is_cont b1
             then map_option ((#) ((x - 192) * 64 + cont_bits b1)) (utf8_decode bs1)
             else None
         | _ \<Rightarrow> None)
      else if 224 \<le> x \<and> x \<le> 239 then
        (case bs of
           b1 # b2 # bs2 \<Rightarrow>
             if (if x = 224 then 160 else 128) \<le> unat b1
                \<and> unat b1 \<le> (if x = 237 then 159 else 191) \<and> is_cont b2
             then map_option ((#) ((x - 224) * 4096 + cont_bits b1 * 64 + cont_bits b2))
                    (utf8_decode bs2)
             else None
         | _ \<Rightarrow> None)
      else if 240 \<le> x \<and> x \<le> 244 then
        (case bs of
           b1 # b2 # b3 # bs3 \<Rightarrow>
             if (if x = 240 then 144 else 128) \<le> unat b1
                \<and> unat b1 \<le> (if x = 244 then 143 else 191) \<and> is_cont b2 \<and> is_cont b3
             then map_option
                    ((#) ((x - 240) * 262144 + cont_bits b1 * 4096 + cont_bits b2 * 64
                          + cont_bits b3))
                    (utf8_decode bs3)
             else None
         | _ \<Rightarrow> None)
      else None)"

text \<open>
  \<open>s.encode()\<close>, the UTF-8 encoder; a surrogate or a value above U+10FFFF cannot
  be encoded (\<open>None\<close>).
\<close>

definition utf8_char :: "nat \<Rightarrow> bytes option" where
  "utf8_char c =
     (if c < 128 then Some [of_nat c]
      else if c < 2048 then Some [of_nat (192 + c div 64), of_nat (128 + c mod 64)]
      else if 55296 \<le> c \<and> c \<le> 57343 then None
      else if c < 65536 then
        Some [of_nat (224 + c div 4096), of_nat (128 + c div 64 mod 64),
              of_nat (128 + c mod 64)]
      else if c < 1114112 then
        Some [of_nat (240 + c div 262144), of_nat (128 + c div 4096 mod 64),
              of_nat (128 + c div 64 mod 64), of_nat (128 + c mod 64)]
      else None)"

fun utf8_encode :: "str \<Rightarrow> bytes option" where
  "utf8_encode [] = Some []"
| "utf8_encode (c # cs) =
     (case utf8_char c of
        None \<Rightarrow> None
      | Some bs \<Rightarrow> map_option ((@) bs) (utf8_encode cs))"

subsection \<open>JSON\<close>

text \<open>
  \<open>json.dumps\<close> with its defaults (\<open>ensure_ascii=True\<close>) on the three shapes the
  handler serialises: a string, a list of strings, and the object
  \<open>{"error": message}\<close>.
\<close>

definition hexdigit :: "nat \<Rightarrow> nat" where
  "hexdigit n = (if n < 10 then 48 + n else 87 + n)"

definition u_escape :: "nat \<Rightarrow> str" where
  "u_escape n =
     [92, 117, hexdigit (n div 4096 mod 16), hexdigit (n div 256 mod 16),
      hexdigit (n div 16 mod 16), hexdigit (n mod 16)]"

definition json_escape :: "nat \<Rightarrow> str" where
  "json_escape c =
     (if c = 34 then [92, 34]
      else if c = 92 then [92, 92]
      else if c = 10 then [92, 110]
      else if c = 13 then [92, 114]
      else if c = 9 then [92, 116]
      else if c = 8 then [92, 98]
      else if c = 12 then [92, 102]
      else if 32 \<le> c \<and> c \<le> 126 then [c]
      else if c < 65536 then u_escape c
      else u_escape (55296 + (c - 65536) div 1024 mod 1024)
           @ u_escape (56320 + (c - 65536) mod 1024))"

definition json_dumps_str :: "str \<Rightarrow> str" where
  "json_dumps_str s = [34] @ concat (map json_escape s) @ [34]"

fun join_comma :: "str list \<Rightarrow> str" where
  "join_comma [] = []"
| "join_comma [x] = x"
| "join_comma (x # y # ys) = x @ [44, 32] @ join_comma (y # ys)"

definition json_dumps_list :: "str list \<Rightarrow> str" where
  "json_dumps_list xs = [91] @ join_comma (map json_dumps_str xs) @ [93]"

definition json_dumps_error :: "str \<Rightarrow> str" where
  \<open>json_dumps_error msg = lit ''{"error": '' @ json_dumps_str msg @ lit ''}''\<close>


section \<open>The collaborators: secret store and object storage\<close>

text \<open>
  The user directory is the JSON object of the secret,
  \<open>{username: {"password": ..., "root_folder": ...}}\<close>, kept as Python keeps it: a
  dictionary in insertion order.  An empty directory is the only falsy one.
\<close>

record user_record =
  password :: str
  root_folder :: str

type_synonym users = "(str \<times> user_record) list"

text \<open>What \<open>list_objects_v2\<close> answers: the keys under \<open>Contents\<close> and the prefixes
  under \<open>CommonPrefixes\<close>; either entry may be absent from the answer.\<close>

record list_response =
  Contents :: "str list option"
  CommonPrefixes :: "str list option"

text \<open>
  The two \<open>boto3\<close> clients (bound to \<open>BUCKET_NAME\<close> and \<open>SECRET_NAME\<close>), the
  \<open>zipfile\<close> writer and \<open>str(e)\<close> are taken as they are given: the handler is
  defined over any services with state \<open>'w\<close>.  Every call either raises or answers;
  \<open>get_secret_value\<close> stands for the fetch together with \<open>json.loads\<close> of the
  secret string.  \<open>list_objects_v2\<close> takes the prefix and the optional delimiter.
\<close>

record 'w env =
  get_secret_value :: "'w \<Rightarrow> exn + users"
  put_object :: "str \<Rightarrow> bytes \<Rightarrow> 'w \<Rightarrow> exn + 'w"
  get_object :: "str \<Rightarrow> 'w \<Rightarrow> exn + bytes"
  list_objects_v2 :: "str \<Rightarrow> str option \<Rightarrow> 'w \<Rightarrow> exn + list_response"
  delete_object :: "str \<Rightarrow> 'w \<Rightarrow> exn + 'w"
  delete_objects :: "str list \<Rightarrow> 'w \<Rightarrow> exn + 'w"
  zip_archive :: "(str \<times> bytes) list \<Rightarrow> bytes"
  str_exn :: "exn \<Rightarrow> str"

text \<open>The calls a process has issued, in order.\<close>

datatype call =
    GetSecretValue
  | PutObject str bytes
  | GetObject str
  | ListObjectsV2 str "str option"
  | DeleteObject str
  | DeleteObjects "str list"

text \<open>
  The state that one invocation reads and leaves behind: the services' state, the
  module-level \<open>_cached_users\<close> (initially \<open>None\<close>) and the log of calls.
\<close>

record 'w proc =
  world :: 'w
  cached_users :: "users option"
  calls :: "call list"

definition issue :: "call \<Rightarrow> 'w proc \<Rightarrow> 'w proc" where
  "issue c st = st\<lparr>calls := calls st @ [c]\<rparr>"

definition is_storage_call :: "call \<Rightarrow> bool" where
  "is_storage_call c = (c \<noteq> GetSecretValue)"


section \<open>Request and response envelopes\<close>

text \<open>The event's keys, each absent (\<open>None\<close>) or present.\<close>

record event =
  httpMethod :: "str option"
  path :: "str option"
  queryStringParameters :: "(str \<rightharpoonup> str) option"
  headers :: "(str \<rightharpoonup> str) option"
  body :: "str option"

text \<open>\<open>(event.get("queryStringParameters") or {}).get(k)\<close>, and the same for the
  headers.\<close>

definition query_param :: "event \<Rightarrow> str \<Rightarrow> str option" where
  "query_param event k =
     (case queryStringParameters event of None \<Rightarrow> None | Some q \<Rightarrow> q k)"

definition header :: "event \<Rightarrow> str \<Rightarrow> str option" where
  "header event k = (case headers event of None \<Rightarrow> None | Some h \<Rightarrow> h k)"

record http_response =
  statusCode :: int
  resp_headers :: "(str \<times> str) list"
  resp_body :: str
  isBase64Encoded :: bool

definition CORS_HEADERS :: "(str \<times> str) list" where
  "CORS_HEADERS =
     [(lit ''Access-Control-Allow-Origin'', lit ''*''),
      (lit ''Access-Control-Allow-Methods'', lit ''GET, PUT, DELETE, OPTIONS''),
      (lit ''Access-Control-Allow-Headers'', lit ''Content-Type''),
      (lit ''Access-Control-Expose-Headers'', lit ''*'')]"

text \<open>
  \<open>response(status_code, body, is_base64, content_type)\<close>.  The source passes
  \<open>bytes\<close> exactly when \<open>is_base64\<close> is true, so the flag is the constructor of the
  body.
\<close>

datatype payload = Text str | Binary bytes

definition response :: "int \<Rightarrow> payload \<Rightarrow> str option \<Rightarrow> http_response" where
  "response status_code body' content_type =
     \<lparr>statusCode = status_code,
      resp_headers =
        (if truthy content_type then CORS_HEADERS @ [(lit ''Content-Type'', the content_type)]
         else CORS_HEADERS),
      resp_body = (case body' of Text s \<Rightarrow> s | Binary b \<Rightarrow> b64encode b),
      isBase64Encoded = (case body' of Text _ \<Rightarrow> False | Binary _ \<Rightarrow> True)\<rparr>"

definition json_response :: "int \<Rightarrow> str \<Rightarrow> http_response" where
  "json_response status_code s = response status_code (Text s) (Some (lit ''application/json''))"

definition error_response :: "int \<Rightarrow> str \<Rightarrow> http_response" where
  "error_response status_code msg = json_response status_code (json_dumps_error msg)"


section \<open>Authentication\<close>

text \<open>\<open>get_users\<close>: a truthy cache is returned; otherwise the secret is fetched and
  stored in the cache.\<close>

definition get_users :: "'w env \<Rightarrow> 'w proc \<Rightarrow> (exn + users) \<times> 'w proc" where
  "get_users env st =
     (if (case cached_users st of None \<Rightarrow> False | Some u \<Rightarrow> u \<noteq> [])
      then (Inr (the (cached_users st)), st)
      else
        let st1 = issue GetSecretValue st in
        case get_secret_value env (world st) of
          Inl e \<Rightarrow> (Inl e, st1)
        | Inr u \<Rightarrow> (Inr u, st1\<lparr>cached_users := Some u\<rparr>))"

text \<open>\<open>n\<close> calls of \<open>get_users\<close> in a row, as successive authentication attempts
  of one process make them, with their results.\<close>

fun get_users_repeatedly :: "nat \<Rightarrow> 'w env \<Rightarrow> 'w proc \<Rightarrow> (exn + users) list \<times> 'w proc" where
  "get_users_repeatedly 0 env st = ([], st)"
| "get_users_repeatedly (Suc n) env st =
     (case get_users env st of
        (r, st1) \<Rightarrow> (case get_users_repeatedly n env st1 of (rs, st2) \<Rightarrow> (r # rs, st2)))"

text \<open>
  \<open>authenticate\<close> returns \<open>(username, root_folder)\<close> or \<open>(None, None)\<close>: here
  \<open>Some (username, root_folder)\<close> or \<open>None\<close>.  Everything in the \<open>try\<close> block that
  raises gives \<open>None\<close>; an exception of \<open>get_users\<close> is not caught here.
\<close>

definition authenticate ::
  "'w env \<Rightarrow> event \<Rightarrow> 'w proc \<Rightarrow> (exn + (str \<times> str) option) \<times> 'w proc" where
  "authenticate env event st =
     (let auth = header event (lit ''Authorization'') in
      if \<not> truthy auth \<or> \<not> startswith (the auth) (lit ''Basic '') then (Inr None, st)
      else
        case split1 32 (the auth) of
          [_, encoded] \<Rightarrow>
            (case b64decode encoded of
               Inl _ \<Rightarrow> (Inr None, st)
             | Inr decoded \<Rightarrow>
                 (case utf8_decode decoded of
                    None \<Rightarrow> (Inr None, st)
                  | Some raw \<Rightarrow>
                      (case split1 58 raw of
                         [username, pw] \<Rightarrow>
                           (case get_users env st of
                              (Inl e, st1) \<Rightarrow> (Inl e, st1)
                            | (Inr users, st1) \<Rightarrow>
                                (case map_of users username of
                                   Some r \<Rightarrow>
                                     if password r = pw
                                     then (Inr (Some (username, root_folder r)), st1)
                                     else (Inr None, st1)
                                 | None \<Rightarrow> (Inr None, st1)))
                       | _ \<Rightarrow> (Inr None, st))))
        | _ \<Rightarrow> (Inr None, st))"


section \<open>Key normalization\<close>

definition normalize_key :: "str \<Rightarrow> str \<Rightarrow> str" where
  "normalize_key folder filename =
     (if startswith filename folder then filename else folder @ filename)"


section \<open>The operations\<close>

text \<open>
  Each branch of \<open>lambda_handler\<close> is a function of its own here, named after the
  branch's comment in the source.  A branch returns a response, or raises into the
  handler's outer \<open>except\<close> (\<open>Inl\<close>).
\<close>

type_synonym 'w outcome = "(exn + http_response) \<times> 'w proc"

text \<open>Upload file / create folder.\<close>

definition upload_file ::
  "'w env \<Rightarrow> event \<Rightarrow> str \<Rightarrow> str option \<Rightarrow> 'w proc \<Rightarrow> 'w outcome" where
  \<open>upload_file env event folder filename st =
     (if \<not> truthy filename then (Inr (error_response 400 (lit ''Missing filename'')), st)
      else
        case b64decode (or_empty (body event)) of
          Inl e \<Rightarrow> (Inl e, st)
        | Inr decoded \<Rightarrow>
            let fname = the filename;
                key = normalize_key folder fname;
                file_content =
                  (if endswith fname (lit ''/'') \<and> decoded = [] then [32] else decoded);
                st1 = issue (PutObject key file_content) st
            in
            (case put_object env key file_content (world st) of
               Inl e \<Rightarrow> (Inl e, st1)
             | Inr w \<Rightarrow>
                 (Inr (response 200
                    (Text (if endswith fname (lit ''/'')
                           then lit ''Folder "'' @ fname @ lit ''" created''
                           else lit ''File "'' @ fname @ lit ''" uploaded''))
                    None),
                  st1\<lparr>world := w\<rparr>)))\<close>

text \<open>Download file.\<close>

definition download_file :: "'w env \<Rightarrow> str \<Rightarrow> str \<Rightarrow> 'w proc \<Rightarrow> 'w outcome" where
  "download_file env folder filename st =
     (let key = normalize_key folder filename;
          st1 = issue (GetObject key) st
      in
      case get_object env key (world st) of
        Inr data \<Rightarrow>
          (Inr (response 200 (Binary data) (Some (lit ''application/octet-stream''))), st1)
      | Inl e \<Rightarrow>
          if e = NoSuchKey then (Inr (error_response 404 (lit ''File not found'')), st1)
          else (Inl e, st1))"

text \<open>List folders.\<close>

definition list_folders :: "'w env \<Rightarrow> str \<Rightarrow> 'w proc \<Rightarrow> 'w outcome" where
  "list_folders env folder st =
     (let st1 = issue (ListObjectsV2 folder (Some (lit ''/''))) st in
      case list_objects_v2 env folder (Some (lit ''/'')) (world st) of
        Inl e \<Rightarrow> (Inl e, st1)
      | Inr resp \<Rightarrow>
          let folders =
                map (replace1 folder [])
                  (case CommonPrefixes resp of None \<Rightarrow> [] | Some ps \<Rightarrow> ps)
          in (Inr (json_response 200 (json_dumps_list folders)), st1))"

text \<open>List files: the loop over \<open>Contents\<close>, appending to \<open>files\<close>.\<close>

fun collect_files :: "str \<Rightarrow> str option \<Rightarrow> str list \<Rightarrow> str list \<Rightarrow> str list" where
  "collect_files folder pfx [] files = files"
| "collect_files folder pfx (k # ks) files =
     (let key = replace1 folder [] k in
      if \<not> truthy pfx then
        (if 47 \<notin> set key then collect_files folder pfx ks (files @ [key])
         else collect_files folder pfx ks files)
      else
        let subpath = drop (length (the pfx)) key in
        if subpath \<noteq> [] \<and> 47 \<notin> set subpath
        then collect_files folder pfx ks (files @ [subpath])
        else collect_files folder pfx ks files)"

definition list_files :: "'w env \<Rightarrow> str \<Rightarrow> str option \<Rightarrow> 'w proc \<Rightarrow> 'w outcome" where
  "list_files env folder pfx st =
     (let search_prefix = normalize_key folder (or_empty pfx);
          st1 = issue (ListObjectsV2 search_prefix None) st
      in
      case list_objects_v2 env search_prefix None (world st) of
        Inl e \<Rightarrow> (Inl e, st1)
      | Inr resp \<Rightarrow>
          let files =
                collect_files folder pfx
                  (case Contents resp of None \<Rightarrow> [] | Some ks \<Rightarrow> ks) []
          in (Inr (json_response 200 (json_dumps_list files)), st1))"

text \<open>Download folder as zip: every listed object is fetched and written to the
  archive under its key with \<open>folder\<close> removed.\<close>

fun zip_entries ::
  "'w env \<Rightarrow> str \<Rightarrow> str list \<Rightarrow> 'w proc \<Rightarrow> (exn + (str \<times> bytes) list) \<times> 'w proc" where
  "zip_entries env folder [] st = (Inr [], st)"
| "zip_entries env folder (k # ks) st =
     (let st1 = issue (GetObject k) st in
      case get_object env k (world st) of
        Inl e \<Rightarrow> (Inl e, st1)
      | Inr file_data \<Rightarrow>
          (case zip_entries env folder ks st1 of
             (Inl e, st2) \<Rightarrow> (Inl e, st2)
           | (Inr es, st2) \<Rightarrow> (Inr ((replace1 folder [] k, file_data) # es), st2)))"

definition download_folder :: "'w env \<Rightarrow> str \<Rightarrow> str \<Rightarrow> 'w proc \<Rightarrow> 'w outcome" where
  "download_folder env folder pfx st =
     (let search_prefix = normalize_key folder pfx;
          st1 = issue (ListObjectsV2 search_prefix None) st
      in
      case list_objects_v2 env search_prefix None (world st) of
        Inl e \<Rightarrow> (Inl e, st1)
      | Inr resp \<Rightarrow>
          (case zip_entries env folder
                  (case Contents resp of None \<Rightarrow> [] | Some ks \<Rightarrow> ks) st1 of
             (Inl e, st2) \<Rightarrow> (Inl e, st2)
           | (Inr es, st2) \<Rightarrow>
               (Inr (response 200 (Binary (zip_archive env es))
                       (Some (lit ''application/zip''))), st2)))"

text \<open>Delete file: any exception of the call is answered with 500 on the spot.\<close>

definition delete_file :: "'w env \<Rightarrow> str \<Rightarrow> str \<Rightarrow> 'w proc \<Rightarrow> 'w outcome" where
  \<open>delete_file env folder filename st =
     (let key = normalize_key folder filename;
          st1 = issue (DeleteObject key) st
      in
      case delete_object env key (world st) of
        Inr w \<Rightarrow>
          (Inr (response 200 (Text (lit ''File "'' @ filename @ lit ''" deleted'')) None),
           st1\<lparr>world := w\<rparr>)
      | Inl e \<Rightarrow> (Inr (error_response 500 (str_exn env e)), st1))\<close>

text \<open>Delete folder: the batch delete is issued only when the listing has
  \<open>Contents\<close>; an exception of the listing goes to the outer handler.\<close>

definition delete_folder :: "'w env \<Rightarrow> str \<Rightarrow> str \<Rightarrow> 'w proc \<Rightarrow> 'w outcome" where
  \<open>delete_folder env folder pfx st =
     (let search_prefix = normalize_key folder pfx;
          st1 = issue (ListObjectsV2 search_prefix None) st;
          deleted = response 200 (Text (lit ''Folder "'' @ pfx @ lit ''" deleted'')) None
      in
      case list_objects_v2 env search_prefix None (world st) of
        Inl e \<Rightarrow> (Inl e, st1)
      | Inr resp \<Rightarrow>
          (case Contents resp of
             None \<Rightarrow> (Inr deleted, st1)
           | Some ks \<Rightarrow>
               let st2 = issue (DeleteObjects ks) st1 in
               (case delete_objects env ks (world st) of
                  Inr w \<Rightarrow> (Inr deleted, st2\<lparr>world := w\<rparr>)
                | Inl e \<Rightarrow> (Inr (error_response 500 (str_exn env e)), st2))))\<close>


section \<open>The handler\<close>

text \<open>The body of the \<open>try\<close>: preflight, authentication, then the chain of
  \<open>if\<close>/\<open>elif\<close> on the path's ending, the method and the parameter.\<close>

definition handler_body :: "'w env \<Rightarrow> event \<Rightarrow> 'w proc \<Rightarrow> 'w outcome" where
  "handler_body env event st =
     (let http_method = or_empty (httpMethod event);
          pth = or_empty (path event);
          filename = query_param event (lit ''filename'');
          pfx = query_param event (lit ''prefix'')
      in
      if http_method = lit ''OPTIONS'' then (Inr (response 200 (Text []) None), st)
      else
        case authenticate env event st of
          (Inl e, st1) \<Rightarrow> (Inl e, st1)
        | (Inr auth, st1) \<Rightarrow>
            if \<not> truthy (map_option fst auth)
            then (Inr (error_response 401 (lit ''Unauthorized'')), st1)
            else
              let folder = snd (the auth) in
              if endswith pth (lit ''/put'') \<and> http_method = lit ''PUT''
              then upload_file env event folder filename st1
              else if endswith pth (lit ''/get'') \<and> http_method = lit ''GET'' \<and> truthy filename
              then download_file env folder (the filename) st1
              else if endswith pth (lit ''/list'') \<and> http_method = lit ''GET''
              then list_folders env folder st1
              else if endswith pth (lit ''/list-files'') \<and> http_method = lit ''GET''
              then list_files env folder pfx st1
              else if endswith pth (lit ''/download-folder'') \<and> http_method = lit ''GET''
                      \<and> truthy pfx
              then download_folder env folder (the pfx) st1
              else if endswith pth (lit ''/delete'') \<and> http_method = lit ''DELETE''
                      \<and> truthy filename
              then delete_file env folder (the filename) st1
              else if endswith pth (lit ''/delete-folder'') \<and> http_method = lit ''DELETE''
                      \<and> truthy pfx
              then delete_folder env folder (the pfx) st1
              else (Inr (error_response 405 (lit ''Unsupported operation'')), st1))"

text \<open>\<open>lambda_handler\<close>: the outer \<open>except Exception\<close> turns whatever was raised
  into a 500 response with the exception's text.\<close>

definition lambda_handler :: "'w env \<Rightarrow> event \<Rightarrow> 'w proc \<Rightarrow> http_response \<times> 'w proc" where
  "lambda_handler env event st =
     (case handler_body env event st of
        (Inr r, st1) \<Rightarrow> (r, st1)
      | (Inl e, st1) \<Rightarrow> (error_response 500 (str_exn env e), st1))"


section \<open>A concrete instance of the services\<close>

text \<open>
  An in-memory object store (keys with their contents, newest first) and a secret
  that holds a fixed directory: the instance on which the theorems below are
  evaluated.
\<close>

type_synonym store = "(str \<times> bytes) list"

definition mem_env :: "users \<Rightarrow> store env" where
  "mem_env dir =
     \<lparr>get_secret_value = (\<lambda>w. Inr dir),
      put_object = (\<lambda>k b w. Inr ((k, b) # filter (\<lambda>kv. fst kv \<noteq> k) w)),
      get_object = (\<lambda>k w. case map_of w k of None \<Rightarrow> Inl NoSuchKey | Some b \<Rightarrow> Inr b),
      list_objects_v2 =
        (\<lambda>p d w. Inr \<lparr>Contents =
                       (if filter (prefix p) (map fst w) = [] then None
                        else Some (filter (prefix p) (map fst w))),
                     CommonPrefixes = None\<rparr>),
      delete_object = (\<lambda>k w. Inr (filter (\<lambda>kv. fst kv \<noteq> k) w)),
      delete_objects = (\<lambda>ks w. Inr (filter (\<lambda>kv. fst kv \<notin> set ks) w)),
      zip_archive = (\<lambda>es. concat (map snd es)),
      str_exn = (\<lambda>e. case e of ClientError m \<Rightarrow> m | _ \<Rightarrow> [])\<rparr>"

text \<open>A process that has just started over an empty store.\<close>

definition fresh :: "store proc" where
  "fresh = \<lparr>world = [], cached_users = None, calls = []\<rparr>"

text \<open>The directory of the spec's scenario: \<open>alice\<close>, password \<open>secret\<close>, root
  folder \<open>alice/\<close>; and the header \<open>Basic base64("alice:secret")\<close>.\<close>

definition alice_dir :: users where
  "alice_dir = [(lit ''alice'', \<lparr>password = lit ''secret'', root_folder = lit ''alice/''\<rparr>)]"


definition request ::
  "string \<Rightarrow> string \<Rightarrow> (str \<rightharpoonup> str) \<Rightarrow> (str \<rightharpoonup> str) \<Rightarrow> str option \<Rightarrow> event" where
  "request m p q h b =
     \<lparr>httpMethod = Some (lit m), path = Some (lit p), queryStringParameters = Some q,
      headers = Some h, body = b\<rparr>"


text \<open>The process after \<open>alice\<close>'s first authentication: the directory is cached and
  the secret has been fetched once.\<close>

definition alice_in :: "store proc" where
  "alice_in = \<lparr>world = [], cached_users = Some alice_dir, calls = [GetSecretValue]\<rparr>"


text \<open>A process that has just started over a store \<open>w\<close>, and the same process after
  \<open>alice\<close>'s first authentication.\<close>

definition started :: "store \<Rightarrow> store proc" where
  "started w = \<lparr>world = w, cached_users = None, calls = []\<rparr>"





text \<open>A directory whose only user has a colon in the name.\<close>

definition colon_dir :: users where
  "colon_dir = [(lit ''a:b'', \<lparr>password = lit ''c'', root_folder = lit ''x/''\<rparr>)]"







section \<open>Key normalization is idempotent\<close>

text \<open>
  Claim C6.  For every folder and every name,
  \<open>normalize(folder, normalize(folder, name)) = normalize(folder, name)\<close>, where
  \<open>normalize(folder, name)\<close> is \<open>name\<close> if \<open>name\<close> starts with \<open>folder\<close> and
  \<open>folder + name\<close> otherwise.
\<close>

theorem normalize_key_idempotent:
  "normalize_key folder (normalize_key folder name) = normalize_key folder name
   \<and> normalize_key folder name = (if startswith name folder then name else folder @ name)"
  by (simp add: normalize_key_def startswith_def)

section \<open>Literals and path endings\<close>

lemma lit_eq_iff [simp]: "lit a = lit b \<longleftrightarrow> a = b"
  by (simp add: lit_def inj_map_eq_map inj_of_char)

lemma lit_Nil_iff [simp]: "lit a = [] \<longleftrightarrow> a = []" "[] = lit a \<longleftrightarrow> a = []"
  by (auto simp add: lit_def)

lemma endswith_append [simp]: "endswith (p @ s) s"
  by (simp add: endswith_def suffix_def)













section \<open>The handler after authentication\<close>

lemma json_unauthorized:
  \<open>json_dumps_error (lit ''Unauthorized'') = lit ''{"error": "Unauthorized"}''\<close>
  by (simp add: json_dumps_error_def json_dumps_str_def json_escape_def lit_def)

lemma statusCode_response [simp]: "statusCode (response c b t) = c"
  by (simp add: response_def)

lemma resp_body_response_Text [simp]: "resp_body (response c (Text s) t) = s"
  by (simp add: response_def)

lemma resp_body_response_Binary [simp]: "resp_body (response c (Binary b) t) = b64encode b"
  by (simp add: response_def)

lemma statusCode_error_response [simp]: "statusCode (error_response c m) = c"
  by (simp add: error_response_def json_response_def)

lemma resp_body_error_response [simp]: "resp_body (error_response c m) = json_dumps_error m"
  by (simp add: error_response_def json_response_def)

lemma statusCode_json_response [simp]: "statusCode (json_response c s) = c"
  by (simp add: json_response_def)

lemma resp_body_json_response [simp]: "resp_body (json_response c s) = s"
  by (simp add: json_response_def)













lemma lambda_handler_Inr:
  "handler_body env event st = (Inr r, st1) \<Longrightarrow> lambda_handler env event st = (r, st1)"
  by (simp add: lambda_handler_def)

section \<open>Authentication leaves the storage alone\<close>

lemma get_users_frame:
  "get_users env st = (r, st1) \<Longrightarrow>
     world st1 = world st \<and> (calls st1 = calls st \<or> calls st1 = calls st @ [GetSecretValue])"
  by (auto simp: get_users_def issue_def Let_def split: if_splits sum.splits)

lemma authenticate_frame:
  assumes "authenticate env event st = (r, st1)"
  shows "world st1 = world st
         \<and> (calls st1 = calls st \<or> calls st1 = calls st @ [GetSecretValue])"
proof (cases "\<exists>r' st'. get_users env st = (r', st') \<and> st1 = st'")
  case True
  then show ?thesis using get_users_frame by blast
next
  case False
  then have "st1 = st"
    using assms
    by (auto simp: authenticate_def Let_def
             split: if_splits list.splits sum.splits option.splits prod.splits)
  then show ?thesis by simp
qed

lemma authenticate_storage_calls:
  assumes "authenticate env event st = (r, st1)"
  shows "filter is_storage_call (calls st1) = filter is_storage_call (calls st)"
  using authenticate_frame [OF assms] by (auto simp: is_storage_call_def)

lemma authenticate_no_header:
  "\<not> truthy (header event (lit ''Authorization'')) \<Longrightarrow>
     authenticate env event st = (Inr None, st)"
  by (simp add: authenticate_def)


section \<open>The concrete requests\<close>

lemma request_simps [simp]:
  "or_empty (httpMethod (request m p q h b)) = lit m"
  "or_empty (path (request m p q h b)) = lit p"
  "query_param (request m p q h b) k = q k"
  "header (request m p q h b) k = h k"
  "body (request m p q h b) = b"
  by (simp_all add: request_def or_empty_def query_param_def header_def)





section \<open>Unauthenticated requests\<close>

text \<open>
  Claim C8.  A request whose method is not \<open>OPTIONS\<close> and on which authentication
  fails (\<open>authenticate\<close> returns \<open>(None, None)\<close>, as it does without an
  \<open>Authorization\<close> header) is answered with status 401 and the body
  \<open>{"error": "Unauthorized"}\<close>, whatever its path; the services' state is unchanged
  and no storage call is issued.
\<close>

theorem unauthenticated_request_gets_401:
  assumes "or_empty (httpMethod event) \<noteq> lit ''OPTIONS''"
      and "authenticate env event st = (Inr None, st1)"
  shows \<open>lambda_handler env event st = (error_response 401 (lit ''Unauthorized''), st1)
       \<and> statusCode (fst (lambda_handler env event st)) = 401
       \<and> resp_body (fst (lambda_handler env event st)) = lit ''{"error": "Unauthorized"}''
       \<and> world (snd (lambda_handler env event st)) = world st
       \<and> filter is_storage_call (calls (snd (lambda_handler env event st)))
           = filter is_storage_call (calls st)\<close>
proof -
  have "handler_body env event st = (Inr (error_response 401 (lit ''Unauthorized'')), st1)"
    using assms by (simp add: handler_body_def truthy_def Let_def)
  then have h: "lambda_handler env event st = (error_response 401 (lit ''Unauthorized''), st1)"
    by (rule lambda_handler_Inr)
  show ?thesis
    using authenticate_frame [OF assms(2)] authenticate_storage_calls [OF assms(2)]
    by (simp add: h json_unauthorized)
qed

theorem unauthenticated_request_gets_401_witness:
  \<open>lambda_handler (mem_env alice_dir)
       (request ''GET'' ''/nowhere'' Map.empty Map.empty None) fresh
     = (error_response 401 (lit ''Unauthorized''), fresh)
   \<and> statusCode (fst (lambda_handler (mem_env alice_dir)
       (request ''GET'' ''/nowhere'' Map.empty Map.empty None) fresh)) = 401
   \<and> resp_body (fst (lambda_handler (mem_env alice_dir)
       (request ''GET'' ''/nowhere'' Map.empty Map.empty None) fresh))
       = lit ''{"error": "Unauthorized"}''
   \<and> world (snd (lambda_handler (mem_env alice_dir)
       (request ''GET'' ''/nowhere'' Map.empty Map.empty None) fresh)) = world fresh
   \<and> filter is_storage_call (calls (snd (lambda_handler (mem_env alice_dir)
       (request ''GET'' ''/nowhere'' Map.empty Map.empty None) fresh)))
       = filter is_storage_call (calls fresh)\<close>
proof -
  let ?ev = "request ''GET'' ''/nowhere'' Map.empty Map.empty None"
  have m: "or_empty (httpMethod ?ev) \<noteq> lit ''OPTIONS''" by simp
  have a: "authenticate (mem_env alice_dir) ?ev fresh = (Inr None, fresh)"
    by (rule authenticate_no_header) (simp add: truthy_def)
  show ?thesis
    by (rule unauthenticated_request_gets_401 [OF m a])
qed

section \<open>Missing parameters\<close>




lemma endswith_self [simp]: "endswith s s"
  by (simp add: endswith_def)



section \<open>Dispatch\<close>





lemma world_alice_in [simp]: "world alice_in = []"
  by (simp add: alice_in_def)




section \<open>Deleting a folder that has no objects\<close>






section \<open>Uploading an empty body\<close>









section \<open>The cache of the user directory\<close>

text \<open>A non-empty cached directory is returned as it is: no call, no change of
  state.  So it is after any number of calls.\<close>

lemma get_users_cached:
  "cached_users st = Some u \<Longrightarrow> u \<noteq> [] \<Longrightarrow> get_users env st = (Inr u, st)"
  by (simp add: get_users_def)

lemma get_users_fetch:
  assumes "cached_users st = None \<or> cached_users st = Some []"
      and "get_secret_value env (world st) = Inr u"
  shows "get_users env st = (Inr u, (issue GetSecretValue st)\<lparr>cached_users := Some u\<rparr>)"
  using assms by (auto simp: get_users_def Let_def)

lemma get_users_repeatedly_cached:
  "cached_users st = Some u \<Longrightarrow> u \<noteq> [] \<Longrightarrow>
     get_users_repeatedly n env st = (replicate n (Inr u), st)"
  by (induction n) (simp_all add: get_users_cached)

text \<open>
  Claim C9 says that after the first fetch the cache is never refreshed, whatever
  the fetched directory is.  The code tests the cache by its truth value, so an
  empty directory, once fetched and stored, is fetched again by the next call: here
  two calls of \<open>get_users\<close> in a fresh process whose secret is the empty directory
  issue two fetches.
\<close>

theorem empty_directory_is_fetched_again:
  "cached_users (snd (get_users (mem_env []) fresh)) = Some []
   \<and> calls (snd (get_users (mem_env []) fresh)) = [GetSecretValue]
   \<and> calls (snd (get_users (mem_env []) (snd (get_users (mem_env []) fresh))))
       = [GetSecretValue, GetSecretValue]"
  by (simp add: get_users_def fresh_def mem_env_def issue_def)


section \<open>Listing files\<close>











lemma world_started [simp]: "world (started w) = w"
  by (simp add: started_def)



text \<open>
  The case that the statement leaves out: \<open>alice/sub/\<close> names the same folder as
  \<open>sub/\<close> and is searched as it is, but the slice by its length cuts into the name,
  and \<open>report.txt\<close> is listed as \<open>.txt\<close>.
\<close>

lemma list_files_prefix_with_folder:
  "normalize_key (lit ''alice/'') (lit ''alice/sub/'') = normalize_key (lit ''alice/'') (lit ''sub/'')
   \<and> collect_files (lit ''alice/'') (Some (lit ''sub/'')) [lit ''alice/sub/report.txt''] []
       = [lit ''report.txt'']
   \<and> collect_files (lit ''alice/'') (Some (lit ''alice/sub/'')) [lit ''alice/sub/report.txt''] []
       = [lit ''.txt'']"
  by (simp add: normalize_key_def startswith_def truthy_def lit_def)

section \<open>Encoding and decoding\<close>

subsection \<open>base64: decoding an encoding gives the bytes back\<close>

lemma b64_value_char:
  assumes "v < 64"
  shows "b64_value (b64_char v) = Some v"
proof -
  have i: "unat v < 64" using assms by (simp add: word_less_nat_alt)
  have v62: "unat v = 62 \<Longrightarrow> v = 62" by (simp add: word_unat_eq_iff)
  have v63: "unat v = 63 \<Longrightarrow> v = 63" by (simp add: word_unat_eq_iff)
  consider "unat v < 26" | "26 \<le> unat v \<and> unat v < 52" | "52 \<le> unat v \<and> unat v < 62"
    | "unat v = 62" | "unat v = 63" using i by linarith
  then show ?thesis
  proof cases
    case 1 then show ?thesis by (simp add: b64_value_def b64_char_def)
  next
    case 2 then show ?thesis by (simp add: b64_value_def b64_char_def)
  next
    case 3 then show ?thesis by (auto simp add: b64_value_def b64_char_def)
  next
    case 4 then show ?thesis by (simp add: b64_value_def b64_char_def v62)
  next
    case 5 then show ?thesis by (simp add: b64_value_def b64_char_def v63)
  qed
qed

lemma b64_char_not_pad: "b64_char v \<noteq> 61"
  by (auto simp add: b64_char_def Let_def)

lemma b64_char_ascii: "b64_char v < 128"
  by (auto simp add: b64_char_def Let_def)

lemma unat_byte_less: "unat (a::byte) < 256"
  using unsigned_less [of a, where ?'a = nat] by simp

lemma lt64_iff: "(x::byte) < 64 \<longleftrightarrow> take_bit 6 x = x"
  using less_mask_eq [of x 6] and_mask_less_size [of 6 x]
  by (auto simp: take_bit_eq_mask word_size)

lemma bit_index_cases: "n < LENGTH(8) \<Longrightarrow> n \<in> {0, 1, 2, 3, 4, 5, 6, 7}"
  by simp arith

text \<open>The four six-bit groups of three bytes are below 64.\<close>

lemma sextet1: "drop_bit 2 (a::byte) < 64"
  using unat_byte_less [of a]
  by (simp add: word_less_nat_alt unat_drop_bit_eq drop_bit_eq_div unat_div)

lemma sextet2: "push_bit 4 ((a::byte) AND 3) OR drop_bit 4 (b::byte) < 64"
  unfolding lt64_iff
  apply (rule bit_word_eqI)
  apply (drule bit_index_cases)
  apply (auto simp add: bit_simps dest: bit_imp_le_length)
  done

lemma sextet2_last: "push_bit 4 ((a::byte) AND 3) < 64"
  unfolding lt64_iff
  apply (rule bit_word_eqI)
  apply (drule bit_index_cases)
  apply (auto simp add: bit_simps dest: bit_imp_le_length)
  done

lemma sextet3: "push_bit 2 ((b::byte) AND 15) OR drop_bit 6 (c::byte) < 64"
  unfolding lt64_iff
  apply (rule bit_word_eqI)
  apply (drule bit_index_cases)
  apply (auto simp add: bit_simps dest: bit_imp_le_length)
  done

lemma sextet3_last: "push_bit 2 ((b::byte) AND 15) < 64"
  unfolding lt64_iff
  apply (rule bit_word_eqI)
  apply (drule bit_index_cases)
  apply (auto simp add: bit_simps dest: bit_imp_le_length)
  done

lemma sextet4: "(c::byte) AND 63 < 64"
  unfolding lt64_iff
  apply (rule bit_word_eqI)
  apply (drule bit_index_cases)
  apply (auto simp add: bit_simps dest: bit_imp_le_length)
  done

text \<open>The decoder's shifts put the three bytes together again.\<close>

lemma byte1:
  "push_bit 2 (drop_bit 2 a) OR drop_bit 4 (push_bit 4 (a AND 3) OR drop_bit 4 b) = (a::byte)"
  apply (rule bit_word_eqI)
  apply (drule bit_index_cases)
  apply (auto simp add: bit_simps numeral_2_eq_2 [symmetric] dest: bit_imp_le_length)
  done

lemma byte1_last:
  "push_bit 2 (drop_bit 2 a) OR drop_bit 4 (push_bit 4 (a AND 3)) = (a::byte)"
  apply (rule bit_word_eqI)
  apply (drule bit_index_cases)
  apply (auto simp add: bit_simps numeral_2_eq_2 [symmetric] dest: bit_imp_le_length)
  done

lemma byte2:
  "push_bit 4 ((push_bit 4 (a AND 3) OR drop_bit 4 b) AND 15)
     OR drop_bit 2 (push_bit 2 (b AND 15) OR drop_bit 6 c) = (b::byte)"
  apply (rule bit_word_eqI)
  apply (drule bit_index_cases)
  apply (auto simp add: bit_simps numeral_2_eq_2 [symmetric] dest: bit_imp_le_length)
  done

lemma byte2_last:
  "push_bit 4 ((push_bit 4 (a AND 3) OR drop_bit 4 b) AND 15)
     OR drop_bit 2 (push_bit 2 (b AND 15)) = (b::byte)"
  apply (rule bit_word_eqI)
  apply (drule bit_index_cases)
  apply (auto simp add: bit_simps numeral_2_eq_2 [symmetric] dest: bit_imp_le_length)
  done

lemma byte3:
  "push_bit 6 ((push_bit 2 (b AND 15) OR drop_bit 6 c) AND 3) OR (c AND 63) = (c::byte)"
  apply (rule bit_word_eqI)
  apply (drule bit_index_cases)
  apply (auto simp add: bit_simps numeral_2_eq_2 [symmetric] dest: bit_imp_le_length)
  done

lemma a2b_quad:
  assumes "v1 < 64" "v2 < 64" "v3 < 64" "v4 < 64"
  shows "a2b_base64 0 l 0 (b64_char v1 # b64_char v2 # b64_char v3 # b64_char v4 # rest) =
    map_option (\<lambda>r. (push_bit 2 v1 OR drop_bit 4 v2) # (push_bit 4 (v2 AND 15) OR drop_bit 2 v3)
       # (push_bit 6 (v3 AND 3) OR v4) # r) (a2b_base64 0 0 0 rest)"
  using assms by (simp add: b64_value_char b64_char_not_pad option.map_comp comp_def)

lemma a2b_one_pad:
  assumes "v1 < 64" "v2 < 64" "v3 < 64"
  shows "a2b_base64 0 l 0 (b64_char v1 # b64_char v2 # b64_char v3 # 61 # rest) =
    Some [push_bit 2 v1 OR drop_bit 4 v2, push_bit 4 (v2 AND 15) OR drop_bit 2 v3]"
  using assms by (simp add: b64_value_char b64_char_not_pad)

lemma a2b_two_pads:
  assumes "v1 < 64" "v2 < 64"
  shows "a2b_base64 0 l 0 (b64_char v1 # b64_char v2 # 61 # 61 # rest) =
    Some [push_bit 2 v1 OR drop_bit 4 v2]"
  using assms by (simp add: b64_value_char b64_char_not_pad)

lemma a2b_b64encode: "a2b_base64 0 l 0 (b64encode bs) = Some bs"
proof (induction bs arbitrary: l rule: b64encode.induct)
  case 1
  show ?case by simp
next
  case (2 a)
  show ?case
    by (simp only: b64encode.simps a2b_two_pads [OF sextet1 sextet2_last] byte1_last)
next
  case (3 a b)
  show ?case
    by (simp only: b64encode.simps a2b_one_pad [OF sextet1 sextet2 sextet3_last]
          byte1 byte2_last)
next
  case (4 a b c rest)
  show ?case
    by (simp only: b64encode.simps append.simps
          a2b_quad [OF sextet1 sextet2 sextet3 sextet4] byte1 byte2 byte3 4 option.map)
qed

lemma b64encode_ascii: "c \<in> set (b64encode bs) \<Longrightarrow> c < 128"
  by (induction bs arbitrary: c rule: b64encode.induct) (auto simp: b64_char_ascii)

lemma b64decode_b64encode: "b64decode (b64encode bs) = Inr bs"
proof -
  have "\<not> (\<exists>c \<in> set (b64encode bs). c \<ge> 128)"
    using b64encode_ascii by fastforce
  then show ?thesis by (simp add: b64decode_def a2b_b64encode)
qed


subsection \<open>UTF-8: decoding an encoding gives the string back\<close>

lemma shift_parts: "q = d * 64 + m \<Longrightarrow> d * (64 * k) + m * k = q * (k::nat)"
  by (simp add: algebra_simps)

lemma div_4096: "(c::nat) div 4096 = c div 64 div 64"
  by (simp add: div_mult2_eq [symmetric])

lemma div_262144: "(c::nat) div 262144 = c div 4096 div 64"
  by (simp add: div_mult2_eq [symmetric])

lemma three_parts: "c div 4096 * 4096 + c div 64 mod 64 * 64 + c mod 64 = (c::nat)"
proof -
  have "c div 64 = c div 64 div 64 * 64 + c div 64 mod 64" by simp
  then have "c div 64 div 64 * (64 * 64) + c div 64 mod 64 * 64 = c div 64 * 64"
    by (rule shift_parts)
  then have "c div 4096 * 4096 + c div 64 mod 64 * 64 = c div 64 * 64"
    by (simp add: div_4096)
  then show ?thesis by simp
qed

lemma four_parts:
  "c div 262144 * 262144 + c div 4096 mod 64 * 4096 + c div 64 mod 64 * 64 + c mod 64 = (c::nat)"
proof -
  have "c div 4096 = c div 4096 div 64 * 64 + c div 4096 mod 64" by simp
  then have "c div 4096 div 64 * (64 * 4096) + c div 4096 mod 64 * 4096 = c div 4096 * 4096"
    by (rule shift_parts)
  then have "c div 262144 * 262144 + c div 4096 mod 64 * 4096 = c div 4096 * 4096"
    by (simp add: div_262144)
  then have "c div 262144 * 262144 + c div 4096 mod 64 * 4096 + c div 64 mod 64 * 64 + c mod 64
        = c div 4096 * 4096 + c div 64 mod 64 * 64 + c mod 64" by simp
  then show ?thesis by (simp only: three_parts)
qed

lemma second_byte_low:
  assumes "n \<le> (c::nat)" and "c div (64 * k) = 0" and "0 < k"
  shows "n div k \<le> c div k mod 64"
proof -
  have "c div k div 64 = 0" using assms(2) by (simp add: div_mult2_eq mult.commute)
  then have "c div k < 64" by simp
  moreover have "n div k \<le> c div k" using assms(1) by (rule div_le_mono)
  ultimately show ?thesis by simp
qed

lemma second_byte_high:
  assumes "(c::nat) \<le> n" and "c div (64 * k) = d" and "0 < k"
  shows "d * 64 + c div k mod 64 \<le> n div k"
proof -
  have "c div k div 64 = d" using assms(2) by (simp add: div_mult2_eq mult.commute)
  then have "d * 64 + c div k mod 64 = c div k" by (metis div_mult_mod_eq)
  moreover have "c div k \<le> n div k" using assms(1) by (simp add: div_le_mono)
  ultimately show ?thesis by simp
qed

lemma div_bound: "(c::nat) div k = d \<Longrightarrow> 0 < k \<Longrightarrow> c < (d + 1) * k"
  using dividend_less_div_times [of k c] by (simp add: algebra_simps)


lemma unat_of_nat_byte: "n < 256 \<Longrightarrow> unat (of_nat n :: byte) = n"
  by (simp add: unat_of_nat)

lemma utf8_decode_1:
  assumes "c < 128"
  shows "utf8_decode (of_nat c # rest) = map_option ((#) c) (utf8_decode rest)"
  using assms by (simp add: unat_of_nat_byte)

lemma utf8_decode_2:
  assumes "128 \<le> c" "c < 2048"
  shows "utf8_decode (of_nat (192 + c div 64) # of_nat (128 + c mod 64) # rest)
         = map_option ((#) c) (utf8_decode rest)"
proof -
  define b0 :: byte where "b0 = of_nat (192 + c div 64)"
  define b1 :: byte where "b1 = of_nat (128 + c mod 64)"
  have q: "2 \<le> c div 64" "c div 64 < 32"
    using div_le_mono [OF assms(1), of 64] less_mult_imp_div_less [of c 32 64] assms(2)
    by simp_all
  have a: "unat b0 = 192 + c div 64"
    unfolding b0_def by (rule unat_of_nat_byte) (use q in linarith)
  have b: "unat b1 = 128 + c mod 64"
    unfolding b1_def by (rule unat_of_nat_byte) simp
  have m: "c mod 64 \<le> 63"
    using mod_less_divisor [of 64 c] by linarith
  have "utf8_decode (b0 # b1 # rest) = map_option ((#) c) (utf8_decode rest)"
    using q m by (simp add: a b is_cont_def cont_bits_def Let_def)
  then show ?thesis unfolding b0_def b1_def .
qed

lemma utf8_decode_3:
  assumes "2048 \<le> c" "c < 65536" "\<not> (55296 \<le> c \<and> c \<le> 57343)"
  shows "utf8_decode (of_nat (224 + c div 4096) # of_nat (128 + c div 64 mod 64)
                      # of_nat (128 + c mod 64) # rest)
         = map_option ((#) c) (utf8_decode rest)"
proof -
  define b0 :: byte where "b0 = of_nat (224 + c div 4096)"
  define b1 :: byte where "b1 = of_nat (128 + c div 64 mod 64)"
  define b2 :: byte where "b2 = of_nat (128 + c mod 64)"
  have q: "c div 4096 < 16"
    using less_mult_imp_div_less [of c 16 4096] assms(2) by simp
  have lo: "32 \<le> c div 64 mod 64" if "c div 4096 = 0"
    using second_byte_low [OF assms(1), of 64] that by simp
  have hi: "c div 64 mod 64 < 32" if "c div 4096 = 13"
  proof -
    have "c < 57344" using div_bound [OF that] by simp
    then have "c \<le> 55295" using assms(3) by linarith
    then show ?thesis using second_byte_high [of c 55295 64 13] that by simp
  qed
  have a: "unat b0 = 224 + c div 4096"
    unfolding b0_def by (rule unat_of_nat_byte) (use q in linarith)
  have b: "unat b1 = 128 + c div 64 mod 64"
    unfolding b1_def by (rule unat_of_nat_byte) simp
  have d: "unat b2 = 128 + c mod 64"
    unfolding b2_def by (rule unat_of_nat_byte) simp
  have "utf8_decode (b0 # b1 # b2 # rest) = map_option ((#) c) (utf8_decode rest)"
    using q lo hi by (auto simp add: a b d is_cont_def cont_bits_def Let_def three_parts)
  then show ?thesis unfolding b0_def b1_def b2_def .
qed

lemma utf8_decode_4:
  assumes "65536 \<le> c" "c < 1114112"
  shows "utf8_decode (of_nat (240 + c div 262144) # of_nat (128 + c div 4096 mod 64)
                      # of_nat (128 + c div 64 mod 64) # of_nat (128 + c mod 64) # rest)
         = map_option ((#) c) (utf8_decode rest)"
proof -
  define b0 :: byte where "b0 = of_nat (240 + c div 262144)"
  define b1 :: byte where "b1 = of_nat (128 + c div 4096 mod 64)"
  define b2 :: byte where "b2 = of_nat (128 + c div 64 mod 64)"
  define b3 :: byte where "b3 = of_nat (128 + c mod 64)"
  have q: "c div 262144 < 5"
    using less_mult_imp_div_less [of c 5 262144] assms(2) by simp
  have lo: "16 \<le> c div 4096 mod 64" if "c div 262144 = 0"
    using second_byte_low [OF assms(1), of 4096] that by simp
  have hi: "c div 4096 mod 64 < 16" if "c div 262144 = 4"
  proof -
    have "c \<le> 1114111" using assms(2) by linarith
    then show ?thesis using second_byte_high [of c 1114111 4096 4] that by simp
  qed
  have a: "unat b0 = 240 + c div 262144"
    unfolding b0_def by (rule unat_of_nat_byte) (use q in linarith)
  have b: "unat b1 = 128 + c div 4096 mod 64"
    unfolding b1_def by (rule unat_of_nat_byte) simp
  have d: "unat b2 = 128 + c div 64 mod 64"
    unfolding b2_def by (rule unat_of_nat_byte) simp
  have e: "unat b3 = 128 + c mod 64"
    unfolding b3_def by (rule unat_of_nat_byte) simp
  have "utf8_decode (b0 # b1 # b2 # b3 # rest) = map_option ((#) c) (utf8_decode rest)"
    using q lo hi by (auto simp add: a b d e is_cont_def cont_bits_def Let_def four_parts)
  then show ?thesis unfolding b0_def b1_def b2_def b3_def .
qed

lemma utf8_decode_char:
  assumes "utf8_char c = Some cb"
  shows "utf8_decode (cb @ rest) = map_option ((#) c) (utf8_decode rest)"
proof -
  consider "c < 128" | "128 \<le> c \<and> c < 2048"
    | "2048 \<le> c \<and> c < 65536 \<and> \<not> (55296 \<le> c \<and> c \<le> 57343)"
    | "65536 \<le> c \<and> c < 1114112"
    | "(55296 \<le> c \<and> c \<le> 57343) \<or> 1114112 \<le> c"
    by linarith
  then show ?thesis
  proof cases
    case 1
    then have cb: "cb = [of_nat c]" using assms by (simp add: utf8_char_def)
    have "utf8_decode (of_nat c # rest) = map_option ((#) c) (utf8_decode rest)"
      by (rule utf8_decode_1) (use 1 in simp)
    then show ?thesis by (simp only: cb append.simps)
  next
    case 2
    then have cb: "cb = [of_nat (192 + c div 64), of_nat (128 + c mod 64)]"
      using assms by (simp add: utf8_char_def del: of_nat_add)
    have "utf8_decode (of_nat (192 + c div 64) # of_nat (128 + c mod 64) # rest)
          = map_option ((#) c) (utf8_decode rest)"
      by (rule utf8_decode_2) (use 2 in simp_all)
    then show ?thesis by (simp only: cb append.simps)
  next
    case 3
    then have cb: "cb = [of_nat (224 + c div 4096), of_nat (128 + c div 64 mod 64),
                     of_nat (128 + c mod 64)]"
      using assms by (auto simp add: utf8_char_def simp del: of_nat_add split: if_splits)
    have "utf8_decode (of_nat (224 + c div 4096) # of_nat (128 + c div 64 mod 64)
                      # of_nat (128 + c mod 64) # rest)
          = map_option ((#) c) (utf8_decode rest)"
      by (rule utf8_decode_3) (use 3 in simp_all)
    then show ?thesis by (simp only: cb append.simps)
  next
    case 4
    then have cb: "cb = [of_nat (240 + c div 262144), of_nat (128 + c div 4096 mod 64),
                     of_nat (128 + c div 64 mod 64), of_nat (128 + c mod 64)]"
      using assms by (simp add: utf8_char_def del: of_nat_add)
    have "utf8_decode (of_nat (240 + c div 262144) # of_nat (128 + c div 4096 mod 64)
                      # of_nat (128 + c div 64 mod 64) # of_nat (128 + c mod 64) # rest)
          = map_option ((#) c) (utf8_decode rest)"
      by (rule utf8_decode_4) (use 4 in simp_all)
    then show ?thesis by (simp only: cb append.simps)
  next
    case 5
    then show ?thesis using assms by (auto simp add: utf8_char_def)
  qed
qed

lemma utf8_decode_encode: "utf8_encode s = Some bs \<Longrightarrow> utf8_decode bs = Some s"
proof (induction s arbitrary: bs)
  case Nil
  then show ?case by simp
next
  case (Cons c cs)
  then obtain cb rest where cb: "utf8_char c = Some cb" and rest: "utf8_encode cs = Some rest"
    and bs: "bs = cb @ rest"
    by (auto split: option.splits)
  show ?case
    by (simp only: bs utf8_decode_char [OF cb] Cons.IH [OF rest] option.map)
qed

section \<open>Authentication with Basic credentials\<close>

lemma startswith_basic: "startswith (lit ''Basic '' @ e) (lit ''Basic '')"
  by (simp add: startswith_def)

lemma split1_basic: "split1 32 (lit ''Basic '' @ e) = [lit ''Basic'', e]"
  by (simp add: split1_def lit_def)

lemma split1_colon:
  assumes "58 \<notin> set u"
  shows "split1 58 (u @ 58 # p) = [u, p]"
proof -
  have "takeWhile (\<lambda>c. c \<noteq> 58) (u @ 58 # p) = u"
    using assms by (induction u) auto
  moreover have "dropWhile (\<lambda>c. c \<noteq> 58) (u @ 58 # p) = 58 # p"
    using assms by (induction u) auto
  ultimately show ?thesis by (simp add: split1_def)
qed

lemma split1_no_colon: "58 \<notin> set raw \<Longrightarrow> split1 58 raw = [raw]"
  by (simp add: split1_def)

lemma truthy_basic: "truthy (Some (lit ''Basic '' @ e))"
  by (simp add: truthy_def lit_def)

text \<open>What \<open>authenticate\<close> does with a header \<open>Basic e\<close>, by what \<open>e\<close> decodes to.\<close>

lemma authenticate_undecodable:
  assumes "header event (lit ''Authorization'') = Some (lit ''Basic '' @ e)"
      and "b64decode e = Inl x"
  shows "authenticate env event st = (Inr None, st)"
  using assms by (simp add: authenticate_def truthy_basic startswith_basic split1_basic)

lemma authenticate_not_utf8:
  assumes "header event (lit ''Authorization'') = Some (lit ''Basic '' @ e)"
      and "b64decode e = Inr bs" and "utf8_decode bs = None"
  shows "authenticate env event st = (Inr None, st)"
  using assms by (simp add: authenticate_def truthy_basic startswith_basic split1_basic)

lemma authenticate_no_colon:
  assumes "header event (lit ''Authorization'') = Some (lit ''Basic '' @ e)"
      and "b64decode e = Inr bs" and "utf8_decode bs = Some raw" and "58 \<notin> set raw"
  shows "authenticate env event st = (Inr None, st)"
  using assms
  by (simp add: authenticate_def truthy_basic startswith_basic split1_basic split1_no_colon)

lemma authenticate_decoded:
  assumes "header event (lit ''Authorization'') = Some (lit ''Basic '' @ e)"
      and "b64decode e = Inr bs" and "utf8_decode bs = Some (u @ 58 # p)" and "58 \<notin> set u"
      and "get_users env st = (Inr users, st1)"
  shows "authenticate env event st =
           (Inr (case map_of users u of
                   None \<Rightarrow> None
                 | Some r \<Rightarrow> if password r = p then Some (u, root_folder r) else None), st1)"
  using assms
  by (simp add: authenticate_def truthy_basic startswith_basic split1_basic split1_colon
           split: option.splits)

lemma authenticate_not_basic:
  assumes "header event (lit ''Authorization'') = Some a"
      and "\<not> startswith a (lit ''Basic '')"
  shows "authenticate env event st = (Inr None, st)"
  using assms by (simp add: authenticate_def)

text \<open>
  Claim C2, as the code has it.  With the user directory \<open>users\<close> at hand:
  the header \<open>Basic\<close> followed by the base64 of the UTF-8 of \<open>u:p\<close>, where \<open>u\<close> has
  no colon, is a user of the directory and \<open>p\<close> is the stored password, gives
  \<open>(u, root_folder)\<close>.  A missing or empty header, a header that does not start with
  \<open>Basic \<close>, a rest that the (lenient) base64 decoder or the UTF-8 decoder refuses,
  a decoded string without a colon, and a decoded string \<open>u':p'\<close> (cut at its first
  colon) whose \<open>u'\<close> is unknown or whose \<open>p'\<close> is not the stored password all give the
  same \<open>(None, None)\<close>.  Any header that decodes to \<open>u':p'\<close> with the stored
  password authenticates \<open>u'\<close>, not only the canonical encoding.
\<close>

theorem authenticate_basic_credentials:
  assumes "get_users env st = (Inr users, st1)"
  shows
    "(header event (lit ''Authorization'') = Some (lit ''Basic '' @ b64encode bs)
        \<and> utf8_encode (u @ 58 # p) = Some bs \<and> 58 \<notin> set u
        \<and> map_of users u = Some r \<and> password r = p
      \<longrightarrow> authenticate env event st = (Inr (Some (u, root_folder r)), st1))
   \<and> (\<not> truthy (header event (lit ''Authorization''))
      \<longrightarrow> authenticate env event st = (Inr None, st))
   \<and> (header event (lit ''Authorization'') = Some a \<and> \<not> startswith a (lit ''Basic '')
      \<longrightarrow> authenticate env event st = (Inr None, st))
   \<and> (header event (lit ''Authorization'') = Some (lit ''Basic '' @ e) \<and> b64decode e = Inl x
      \<longrightarrow> authenticate env event st = (Inr None, st))
   \<and> (header event (lit ''Authorization'') = Some (lit ''Basic '' @ e) \<and> b64decode e = Inr bs'
        \<and> utf8_decode bs' = None
      \<longrightarrow> authenticate env event st = (Inr None, st))
   \<and> (header event (lit ''Authorization'') = Some (lit ''Basic '' @ e) \<and> b64decode e = Inr bs'
        \<and> utf8_decode bs' = Some raw \<and> 58 \<notin> set raw
      \<longrightarrow> authenticate env event st = (Inr None, st))
   \<and> (header event (lit ''Authorization'') = Some (lit ''Basic '' @ e) \<and> b64decode e = Inr bs'
        \<and> utf8_decode bs' = Some (u' @ 58 # p') \<and> 58 \<notin> set u' \<and> map_of users u' = None
      \<longrightarrow> authenticate env event st = (Inr None, st1))
   \<and> (header event (lit ''Authorization'') = Some (lit ''Basic '' @ e) \<and> b64decode e = Inr bs'
        \<and> utf8_decode bs' = Some (u' @ 58 # p') \<and> 58 \<notin> set u'
        \<and> map_of users u' = Some r' \<and> password r' \<noteq> p'
      \<longrightarrow> authenticate env event st = (Inr None, st1))
   \<and> (header event (lit ''Authorization'') = Some (lit ''Basic '' @ e) \<and> b64decode e = Inr bs'
        \<and> utf8_decode bs' = Some (u' @ 58 # p') \<and> 58 \<notin> set u'
        \<and> map_of users u' = Some r' \<and> password r' = p'
      \<longrightarrow> authenticate env event st = (Inr (Some (u', root_folder r')), st1))"
proof (intro conjI impI)
  assume a: "header event (lit ''Authorization'') = Some (lit ''Basic '' @ b64encode bs)
        \<and> utf8_encode (u @ 58 # p) = Some bs \<and> 58 \<notin> set u
        \<and> map_of users u = Some r \<and> password r = p"
  then have "utf8_decode bs = Some (u @ 58 # p)" by (simp add: utf8_decode_encode)
  then show "authenticate env event st = (Inr (Some (u, root_folder r)), st1)"
    using a authenticate_decoded [of event "b64encode bs" bs u p env st users st1] assms
    by (simp add: b64decode_b64encode)
next
  assume "\<not> truthy (header event (lit ''Authorization''))"
  then show "authenticate env event st = (Inr None, st)" by (rule authenticate_no_header)
next
  assume "header event (lit ''Authorization'') = Some a \<and> \<not> startswith a (lit ''Basic '')"
  then show "authenticate env event st = (Inr None, st)"
    using authenticate_not_basic by blast
next
  assume "header event (lit ''Authorization'') = Some (lit ''Basic '' @ e) \<and> b64decode e = Inl x"
  then show "authenticate env event st = (Inr None, st)"
    using authenticate_undecodable by blast
next
  assume "header event (lit ''Authorization'') = Some (lit ''Basic '' @ e) \<and> b64decode e = Inr bs'
        \<and> utf8_decode bs' = None"
  then show "authenticate env event st = (Inr None, st)"
    using authenticate_not_utf8 by blast
next
  assume "header event (lit ''Authorization'') = Some (lit ''Basic '' @ e) \<and> b64decode e = Inr bs'
        \<and> utf8_decode bs' = Some raw \<and> 58 \<notin> set raw"
  then show "authenticate env event st = (Inr None, st)"
    using authenticate_no_colon by blast
next
  assume "header event (lit ''Authorization'') = Some (lit ''Basic '' @ e) \<and> b64decode e = Inr bs'
        \<and> utf8_decode bs' = Some (u' @ 58 # p') \<and> 58 \<notin> set u' \<and> map_of users u' = None"
  then show "authenticate env event st = (Inr None, st1)"
    using authenticate_decoded [of event e bs' u' p' env st users st1] assms by simp
next
  assume "header event (lit ''Authorization'') = Some (lit ''Basic '' @ e) \<and> b64decode e = Inr bs'
        \<and> utf8_decode bs' = Some (u' @ 58 # p') \<and> 58 \<notin> set u'
        \<and> map_of users u' = Some r' \<and> password r' \<noteq> p'"
  then show "authenticate env event st = (Inr None, st1)"
    using authenticate_decoded [of event e bs' u' p' env st users st1] assms by simp
next
  assume "header event (lit ''Authorization'') = Some (lit ''Basic '' @ e) \<and> b64decode e = Inr bs'
        \<and> utf8_decode bs' = Some (u' @ 58 # p') \<and> 58 \<notin> set u'
        \<and> map_of users u' = Some r' \<and> password r' = p'"
  then show "authenticate env event st = (Inr (Some (u', root_folder r')), st1)"
    using authenticate_decoded [of event e bs' u' p' env st users st1] assms by simp
qed


lemma get_users_alice: "get_users (mem_env alice_dir) fresh = (Inr alice_dir, alice_in)"
  by (simp add: get_users_def fresh_def mem_env_def issue_def alice_in_def)

lemma basic_header: "lit (''Basic '' @ s) = lit ''Basic '' @ lit s"
  by (simp add: lit_def)

theorem authenticate_basic_credentials_witness:
  "authenticate (mem_env alice_dir)
      (request ''GET'' ''/list'' Map.empty
         [lit ''Authorization'' \<mapsto> lit ''Basic '' @ b64encode [97, 108, 105, 99, 101, 58, 115, 101, 99, 114, 101, 116]]
         None) fresh
     = (Inr (Some (lit ''alice'', lit ''alice/'')), alice_in)
   \<and> authenticate (mem_env alice_dir)
      (request ''GET'' ''/list'' Map.empty Map.empty None) fresh = (Inr None, fresh)
   \<and> authenticate (mem_env alice_dir)
      (request ''GET'' ''/list'' Map.empty [lit ''Authorization'' \<mapsto> lit ''Bearer abc''] None)
      fresh = (Inr None, fresh)
   \<and> authenticate (mem_env alice_dir)
      (request ''GET'' ''/list'' Map.empty [lit ''Authorization'' \<mapsto> lit ''Basic '' @ lit ''a'']
         None) fresh = (Inr None, fresh)
   \<and> authenticate (mem_env alice_dir)
      (request ''GET'' ''/list'' Map.empty [lit ''Authorization'' \<mapsto> lit ''Basic '' @ lit ''/w=='']
         None) fresh = (Inr None, fresh)
   \<and> authenticate (mem_env alice_dir)
      (request ''GET'' ''/list'' Map.empty
         [lit ''Authorization'' \<mapsto> lit ''Basic '' @ lit ''YWxpY2U=''] None) fresh
     = (Inr None, fresh)
   \<and> authenticate (mem_env alice_dir)
      (request ''GET'' ''/list'' Map.empty
         [lit ''Authorization'' \<mapsto> lit ''Basic '' @ lit ''Ym9iOnNlY3JldA==''] None) fresh
     = (Inr None, alice_in)
   \<and> authenticate (mem_env alice_dir)
      (request ''GET'' ''/list'' Map.empty
         [lit ''Authorization'' \<mapsto> lit ''Basic '' @ lit ''YWxpY2U6d3Jvbmc=''] None) fresh
     = (Inr None, alice_in)
   \<and> authenticate (mem_env alice_dir)
      (request ''GET'' ''/list'' Map.empty
         [lit ''Authorization'' \<mapsto> lit ''Basic '' @ lit ''YWxpY2U6c2VjcmV0=''] None) fresh
     = (Inr (Some (lit ''alice'', lit ''alice/'')), alice_in)"
proof (intro conjI)
  note t = authenticate_basic_credentials [OF get_users_alice]
  have alice: "map_of alice_dir (lit ''alice'')
               = Some \<lparr>password = lit ''secret'', root_folder = lit ''alice/''\<rparr>"
    by (simp add: alice_dir_def)
  have bob: "map_of alice_dir (lit ''bob'') = None"
    by (simp add: alice_dir_def)
  show "authenticate (mem_env alice_dir)
      (request ''GET'' ''/list'' Map.empty
         [lit ''Authorization'' \<mapsto> lit ''Basic '' @ b64encode [97, 108, 105, 99, 101, 58, 115, 101, 99, 114, 101, 116]]
         None) fresh
     = (Inr (Some (lit ''alice'', lit ''alice/'')), alice_in)"
  proof -
    have "utf8_encode (lit ''alice'' @ 58 # lit ''secret'')
          = Some [97, 108, 105, 99, 101, 58, 115, 101, 99, 114, 101, 116]"
      by (simp add: utf8_char_def lit_def)
    moreover have "58 \<notin> set (lit ''alice'')" by (simp add: lit_def)
    ultimately show ?thesis
      using t [where u = "lit ''alice''" and p = "lit ''secret''"
            and bs = "[97, 108, 105, 99, 101, 58, 115, 101, 99, 114, 101, 116]"
            and r = "\<lparr>password = lit ''secret'', root_folder = lit ''alice/''\<rparr>"
            and event = "request ''GET'' ''/list'' Map.empty
         [lit ''Authorization'' \<mapsto> lit ''Basic '' @ b64encode [97, 108, 105, 99, 101, 58, 115, 101, 99, 114, 101, 116]]
         None"] alice
      by simp
  qed
  show "authenticate (mem_env alice_dir)
      (request ''GET'' ''/list'' Map.empty Map.empty None) fresh = (Inr None, fresh)"
    using t [where event = "request ''GET'' ''/list'' Map.empty Map.empty None"]
    by (simp add: truthy_def)
  show "authenticate (mem_env alice_dir)
      (request ''GET'' ''/list'' Map.empty [lit ''Authorization'' \<mapsto> lit ''Bearer abc''] None)
      fresh = (Inr None, fresh)"
  proof -
    have "\<not> startswith (lit ''Bearer abc'') (lit ''Basic '')"
      by (simp add: startswith_def lit_def)
    then show ?thesis
      using t [where a = "lit ''Bearer abc''" and event = "request ''GET'' ''/list'' Map.empty
          [lit ''Authorization'' \<mapsto> lit ''Bearer abc''] None"]
      by simp
  qed
  show "authenticate (mem_env alice_dir)
      (request ''GET'' ''/list'' Map.empty [lit ''Authorization'' \<mapsto> lit ''Basic '' @ lit ''a'']
         None) fresh = (Inr None, fresh)"
  proof -
    have "b64decode (lit ''a'') = Inl BinasciiError"
      by (simp add: b64decode_def b64_value_def lit_def)
    then show ?thesis
      using t [where e = "lit ''a''" and x = BinasciiError
          and event = "request ''GET'' ''/list'' Map.empty
            [lit ''Authorization'' \<mapsto> lit ''Basic '' @ lit ''a''] None"]
      by simp
  qed
  show "authenticate (mem_env alice_dir)
      (request ''GET'' ''/list'' Map.empty [lit ''Authorization'' \<mapsto> lit ''Basic '' @ lit ''/w=='']
         None) fresh = (Inr None, fresh)"
  proof -
    have "b64decode (lit ''/w=='') = Inr [255]"
      by (simp add: b64decode_def b64_value_def lit_def)
    moreover have "utf8_decode [255] = None" by simp
    ultimately show ?thesis
      using t [where e = "lit ''/w==''" and bs' = "[255]"
          and event = "request ''GET'' ''/list'' Map.empty
            [lit ''Authorization'' \<mapsto> lit ''Basic '' @ lit ''/w==''] None"]
      by simp
  qed
  show "authenticate (mem_env alice_dir)
      (request ''GET'' ''/list'' Map.empty
         [lit ''Authorization'' \<mapsto> lit ''Basic '' @ lit ''YWxpY2U=''] None) fresh
     = (Inr None, fresh)"
  proof -
    have "b64decode (lit ''YWxpY2U='') = Inr [97, 108, 105, 99, 101]"
      by (simp add: b64decode_def b64_value_def lit_def)
    moreover have "utf8_decode [97, 108, 105, 99, 101] = Some (lit ''alice'')"
      by (simp add: lit_def)
    moreover have "58 \<notin> set (lit ''alice'')" by (simp add: lit_def)
    ultimately show ?thesis
      using t [where e = "lit ''YWxpY2U=''" and bs' = "[97, 108, 105, 99, 101]"
          and raw = "lit ''alice''"
          and event = "request ''GET'' ''/list'' Map.empty
            [lit ''Authorization'' \<mapsto> lit ''Basic '' @ lit ''YWxpY2U=''] None"]
      by simp
  qed
  show "authenticate (mem_env alice_dir)
      (request ''GET'' ''/list'' Map.empty
         [lit ''Authorization'' \<mapsto> lit ''Basic '' @ lit ''Ym9iOnNlY3JldA==''] None) fresh
     = (Inr None, alice_in)"
  proof -
    have "b64decode (lit ''Ym9iOnNlY3JldA=='')
          = Inr [98, 111, 98, 58, 115, 101, 99, 114, 101, 116]"
      by (simp add: b64decode_def b64_value_def lit_def)
    moreover have "utf8_decode [98, 111, 98, 58, 115, 101, 99, 114, 101, 116]
                   = Some (lit ''bob'' @ 58 # lit ''secret'')"
      by (simp add: lit_def)
    moreover have "58 \<notin> set (lit ''bob'')" by (simp add: lit_def)
    ultimately show ?thesis
      using t [where e = "lit ''Ym9iOnNlY3JldA==''"
          and bs' = "[98, 111, 98, 58, 115, 101, 99, 114, 101, 116]"
          and u' = "lit ''bob''" and p' = "lit ''secret''"
          and event = "request ''GET'' ''/list'' Map.empty
            [lit ''Authorization'' \<mapsto> lit ''Basic '' @ lit ''Ym9iOnNlY3JldA==''] None"] bob
      by simp
  qed
  show "authenticate (mem_env alice_dir)
      (request ''GET'' ''/list'' Map.empty
         [lit ''Authorization'' \<mapsto> lit ''Basic '' @ lit ''YWxpY2U6d3Jvbmc=''] None) fresh
     = (Inr None, alice_in)"
  proof -
    have "b64decode (lit ''YWxpY2U6d3Jvbmc='')
          = Inr [97, 108, 105, 99, 101, 58, 119, 114, 111, 110, 103]"
      by (simp add: b64decode_def b64_value_def lit_def)
    moreover have "utf8_decode [97, 108, 105, 99, 101, 58, 119, 114, 111, 110, 103]
                   = Some (lit ''alice'' @ 58 # lit ''wrong'')"
      by (simp add: lit_def)
    moreover have "58 \<notin> set (lit ''alice'')" by (simp add: lit_def)
    ultimately show ?thesis
      using t [where e = "lit ''YWxpY2U6d3Jvbmc=''"
          and bs' = "[97, 108, 105, 99, 101, 58, 119, 114, 111, 110, 103]"
          and u' = "lit ''alice''" and p' = "lit ''wrong''"
          and r' = "\<lparr>password = lit ''secret'', root_folder = lit ''alice/''\<rparr>"
          and event = "request ''GET'' ''/list'' Map.empty
            [lit ''Authorization'' \<mapsto> lit ''Basic '' @ lit ''YWxpY2U6d3Jvbmc=''] None"] alice
      by simp
  qed
  show "authenticate (mem_env alice_dir)
      (request ''GET'' ''/list'' Map.empty
         [lit ''Authorization'' \<mapsto> lit ''Basic '' @ lit ''YWxpY2U6c2VjcmV0=''] None) fresh
     = (Inr (Some (lit ''alice'', lit ''alice/'')), alice_in)"
  proof -
    have "b64decode (lit ''YWxpY2U6c2VjcmV0='')
          = Inr [97, 108, 105, 99, 101, 58, 115, 101, 99, 114, 101, 116]"
      by (simp add: b64decode_def b64_value_def lit_def)
    moreover have "utf8_decode [97, 108, 105, 99, 101, 58, 115, 101, 99, 114, 101, 116]
                   = Some (lit ''alice'' @ 58 # lit ''secret'')"
      by (simp add: lit_def)
    moreover have "58 \<notin> set (lit ''alice'')" by (simp add: lit_def)
    ultimately show ?thesis
      using t [where e = "lit ''YWxpY2U6c2VjcmV0=''"
          and bs' = "[97, 108, 105, 99, 101, 58, 115, 101, 99, 114, 101, 116]"
          and u' = "lit ''alice''" and p' = "lit ''secret''"
          and r' = "\<lparr>password = lit ''secret'', root_folder = lit ''alice/''\<rparr>"
          and event = "request ''GET'' ''/list'' Map.empty
            [lit ''Authorization'' \<mapsto> lit ''Basic '' @ lit ''YWxpY2U6c2VjcmV0=''] None"] alice
      by simp
  qed
qed

text \<open>
  The claim itself fails for a user whose name has a colon: the directory holds
  \<open>a:b\<close> with password \<open>c\<close>, the header is \<open>Basic\<close> and the base64 of \<open>a:b:c\<close>, and
  the result is \<open>(None, None)\<close>, since the decoded string is cut at its first colon
  into the user \<open>a\<close> and the password \<open>b:c\<close>.
\<close>

theorem colon_in_username_is_rejected:
  "map_of colon_dir (lit ''a:b'') = Some \<lparr>password = lit ''c'', root_folder = lit ''x/''\<rparr>
   \<and> utf8_encode (lit ''a:b'' @ 58 # lit ''c'') = Some [97, 58, 98, 58, 99]
   \<and> b64encode [97, 58, 98, 58, 99] = lit ''YTpiOmM=''
   \<and> fst (authenticate (mem_env colon_dir)
        (request ''GET'' ''/list'' Map.empty
           [lit ''Authorization'' \<mapsto> lit ''Basic '' @ lit ''YTpiOmM=''] None) fresh)
     = Inr None"
proof (intro conjI)
  show "map_of colon_dir (lit ''a:b'') = Some \<lparr>password = lit ''c'', root_folder = lit ''x/''\<rparr>"
    by (simp add: colon_dir_def)
  show "utf8_encode (lit ''a:b'' @ 58 # lit ''c'') = Some [97, 58, 98, 58, 99]"
    by (simp add: utf8_char_def lit_def)
  show "b64encode [97, 58, 98, 58, 99] = lit ''YTpiOmM=''"
    by (simp add: b64_char_def lit_def)
  have d: "b64decode (lit ''YTpiOmM='') = Inr [97, 58, 98, 58, 99]"
    by (simp add: b64decode_def b64_value_def lit_def)
  have u: "utf8_decode [97, 58, 98, 58, 99] = Some (lit ''a'' @ 58 # lit ''b:c'')"
    by (simp add: lit_def)
  have g: "get_users (mem_env colon_dir) fresh
           = (Inr colon_dir, (issue GetSecretValue fresh)\<lparr>cached_users := Some colon_dir\<rparr>)"
    by (simp add: get_users_def fresh_def mem_env_def issue_def)
  have n: "58 \<notin> set (lit ''a'')" by (simp add: lit_def)
  have m: "map_of colon_dir (lit ''a'') = None" by (simp add: colon_dir_def lit_def)
  show "fst (authenticate (mem_env colon_dir)
        (request ''GET'' ''/list'' Map.empty
           [lit ''Authorization'' \<mapsto> lit ''Basic '' @ lit ''YTpiOmM=''] None) fresh)
     = Inr None"
    using authenticate_decoded [OF _ d u n g, of "request ''GET'' ''/list'' Map.empty
           [lit ''Authorization'' \<mapsto> lit ''Basic '' @ lit ''YTpiOmM=''] None"] m
    by simp
qed

section \<open>Upload, then download\<close>



lemma isBase64Encoded_Binary [simp]: "isBase64Encoded (response c (Binary b) t)"
  by (simp add: response_def)










end
